theory Spec2Isabelle
  imports
    Main
    "HOL-Library.Char_ord"
    "HOL-Library.List_Lexorder"
    "HOL-Library.DAList"
    "HOL-Library.Sublist"
begin

section \<open>The label model of \<^verbatim>\<open>pkg/labels\<close> (vendored in the client examples)\<close>

text \<open>
  The embedding follows
  \<^verbatim>\<open>latest/vendor/github.com/cilium/cilium/api/v1/models/selector_identity_mapping.go\<close>,
  whose second half is the Go package \<^verbatim>\<open>labels\<close>.

  \<^item> A Go \<^verbatim>\<open>string\<close> is a sequence of bytes: \<^typ>\<open>string\<close>, a list of 8-bit
    characters. Go compares strings byte by byte; that is the order of
    \<^verbatim>\<open>Char_ord\<close> lifted to lists by \<^verbatim>\<open>List_Lexorder\<close>.
  \<^item> A Go \<^verbatim>\<open>int\<close> is modelled by \<^typ>\<open>int\<close>: every integer below is an index
    into a string, or \<^verbatim>\<open>-1\<close>, far from the 64-bit limits.
  \<^item> A run-time panic of Go is the left summand of a result.
\<close>

subsection \<open>Constants\<close>

definition LabelSourceUnspec :: string where
  "LabelSourceUnspec = ''unspec''"

definition LabelSourceAny :: string where
  "LabelSourceAny = ''any''"

definition LabelSourceK8s :: string where
  "LabelSourceK8s = ''k8s''"

definition LabelSourceReserved :: string where
  "LabelSourceReserved = ''reserved''"

definition LabelSourceReservedKeyPrefix :: string where
  "LabelSourceReservedKeyPrefix = LabelSourceReserved @ ''.''"

subsection \<open>Labels\<close>

record Label =
  Key :: string
  Value :: string
  Source :: string

text \<open>The zero value of the struct: what \<^verbatim>\<open>var lbl Label\<close> and a failed map lookup give.\<close>

definition zero_Label :: Label where
  "zero_Label = \<lparr>Key = [], Value = [], Source = []\<rparr>"

datatype panic = IndexOutOfRange | SliceBoundsOutOfRange | AssignmentToNilMap

subsection \<open>Go's string primitives\<close>

text \<open>\<^verbatim>\<open>s[i]\<close>, \<^verbatim>\<open>s[:i]\<close> and \<^verbatim>\<open>s[i:]\<close>, with the bounds checks of the language.\<close>

definition byte_at :: "string \<Rightarrow> int \<Rightarrow> panic + char" where
  "byte_at s i = (if 0 \<le> i \<and> i < int (length s) then Inr (s ! nat i) else Inl IndexOutOfRange)"

definition slice_to :: "string \<Rightarrow> int \<Rightarrow> panic + string" where
  "slice_to s i =
     (if 0 \<le> i \<and> i \<le> int (length s) then Inr (take (nat i) s) else Inl SliceBoundsOutOfRange)"

definition slice_from :: "string \<Rightarrow> int \<Rightarrow> panic + string" where
  "slice_from s i =
     (if 0 \<le> i \<and> i \<le> int (length s) then Inr (drop (nat i) s) else Inl SliceBoundsOutOfRange)"

text \<open>
  \<^verbatim>\<open>strings.IndexByte\<close>: the index of the first instance of \<open>c\<close> in \<open>s\<close>, or \<open>-1\<close>.
  \<^verbatim>\<open>strings.HasPrefix\<close> and \<^verbatim>\<open>strings.TrimPrefix\<close> as the standard library documents them.
\<close>

fun IndexByte :: "string \<Rightarrow> char \<Rightarrow> int" where
  "IndexByte [] c = - 1"
| "IndexByte (x # xs) c =
     (if x = c then 0 else (let i = IndexByte xs c in if i < 0 then - 1 else i + 1))"

definition HasPrefix :: "string \<Rightarrow> string \<Rightarrow> bool" where
  "HasPrefix s p = (length p \<le> length s \<and> take (length p) s = p)"

definition TrimPrefix :: "string \<Rightarrow> string \<Rightarrow> string" where
  "TrimPrefix s p = (if HasPrefix s p then drop (length p) s else s)"

subsection \<open>Parsing\<close>

text \<open>
  \<^verbatim>\<open>parseSource\<close> (lines 580--595), \<^verbatim>\<open>parseLabel\<close> (607--627), \<^verbatim>\<open>ParseLabel\<close>
  (600--602), \<^verbatim>\<open>parseSelectLabel\<close> (640--648) and \<^verbatim>\<open>ParseSelectLabel\<close> (632--634).
  The delimiter is \<^verbatim>\<open>:\<close> for the Cilium format and \<^verbatim>\<open>.\<close> for the Kubernetes format.
\<close>

definition parseSource :: "string \<Rightarrow> char \<Rightarrow> panic + (string \<times> string)" where
  "parseSource str delim =
     (if str = [] then Inr ([], [])
      else
        case byte_at str 0 of
          Inl e \<Rightarrow> Inl e
        | Inr c \<Rightarrow>
            if c = CHR ''$'' then
              (case slice_from str 1 of
                 Inl e \<Rightarrow> Inl e
               | Inr rest \<Rightarrow> Inr (LabelSourceReserved, rest))
            else
              let i = IndexByte str delim in
              if i < 0 then
                (if delim \<noteq> CHR ''.'' \<and> HasPrefix str LabelSourceReservedKeyPrefix
                 then Inr (LabelSourceReserved, TrimPrefix str LabelSourceReservedKeyPrefix)
                 else Inr ([], str))
              else
                (case slice_to str i of
                   Inl e \<Rightarrow> Inl e
                 | Inr src \<Rightarrow>
                     (case slice_from str (i + 1) of
                        Inl e \<Rightarrow> Inl e
                      | Inr rest \<Rightarrow> Inr (src, rest))))"

definition parseLabel :: "string \<Rightarrow> char \<Rightarrow> panic + Label" where
  "parseLabel str delim =
     (case parseSource str delim of
        Inl e \<Rightarrow> Inl e
      | Inr (src, next) \<Rightarrow>
          let lbl = zero_Label;
              lbl = (if src \<noteq> [] then lbl\<lparr>Source := src\<rparr> else lbl\<lparr>Source := LabelSourceUnspec\<rparr>);
              i = IndexByte next (CHR ''='')
          in
            if i < 0 then Inr (lbl\<lparr>Key := next\<rparr>)
            else if i = 0 \<and> src = LabelSourceReserved then
              (case slice_from next (i + 1) of
                 Inl e \<Rightarrow> Inl e
               | Inr k \<Rightarrow> Inr (lbl\<lparr>Key := k\<rparr>))
            else
              (case slice_to next i of
                 Inl e \<Rightarrow> Inl e
               | Inr k \<Rightarrow>
                   (case slice_from next (i + 1) of
                      Inl e \<Rightarrow> Inl e
                    | Inr v \<Rightarrow> Inr (lbl\<lparr>Key := k, Value := v\<rparr>))))"

definition ParseLabel :: "string \<Rightarrow> panic + Label" where
  "ParseLabel str = parseLabel str (CHR '':'')"

definition parseSelectLabel :: "string \<Rightarrow> char \<Rightarrow> panic + Label" where
  "parseSelectLabel str delim =
     (case parseLabel str delim of
        Inl e \<Rightarrow> Inl e
      | Inr lbl \<Rightarrow>
          Inr (if Source lbl = LabelSourceUnspec then lbl\<lparr>Source := LabelSourceAny\<rparr> else lbl))"

definition ParseSelectLabel :: "string \<Rightarrow> panic + Label" where
  "ParseSelectLabel str = parseSelectLabel str (CHR '':'')"

subsection \<open>Single labels\<close>

definition IsAnySource :: "Label \<Rightarrow> bool" where
  "IsAnySource l = (Source l = LabelSourceAny)"

text \<open>
  \<^verbatim>\<open>func (l *Label) Equals(b *Label) bool\<close> (lines 281--286) with \<^verbatim>\<open>IsAnySource\<close>
  (289--291). Both pointers are taken to point to labels; the model works on the labels
  they point to.
\<close>

definition Label_Equals :: "Label \<Rightarrow> Label \<Rightarrow> bool" where
  "Label_Equals l b =
     (if \<not> IsAnySource l \<and> Source l \<noteq> Source b then False
      else Key l = Key b \<and> Value l = Value b)"

text \<open>
  \<^verbatim>\<open>FormatForKVStore\<close> (lines 500--508):
  \<^verbatim>\<open>fmt.Sprintf(`%s:%s=%s;`, l.Source, l.Key, l.Value)\<close>.
\<close>

definition FormatForKVStore :: "Label \<Rightarrow> string" where
  "FormatForKVStore l = Source l @ '':'' @ Key l @ ''='' @ Value l @ '';''"

subsection \<open>Label sets: Go maps in a store\<close>

text \<open>
  \<^verbatim>\<open>type Labels map[string]Label\<close>. A value of a Go map type is \<^verbatim>\<open>nil\<close> or a
  reference to a map object, and a method that writes to the map is seen through every
  reference to the same object. The map objects therefore live in a store, a list
  indexed by address; allocation appends to it.

  A map object is an association list with distinct keys. Its order stands for the
  order in which a \<^verbatim>\<open>range\<close> loop visits the entries, which Go leaves unspecified:
  the theorems below hold for every order.
\<close>

type_synonym addr = nat

datatype Labels = NilLabels | MapRef addr

type_synonym store = "(string, Label) alist list"

text \<open>The entries a \<^verbatim>\<open>range l\<close> loop visits; a nil map has none.\<close>

definition map_range :: "store \<Rightarrow> Labels \<Rightarrow> (string \<times> Label) list" where
  "map_range h l =
     (case l of
        NilLabels \<Rightarrow> []
      | MapRef a \<Rightarrow> if a < length h then DAList.impl_of (h ! a) else [])"

text \<open>\<^verbatim>\<open>len(l)\<close>\<close>

definition map_len :: "store \<Rightarrow> Labels \<Rightarrow> int" where
  "map_len h l = int (length (map_range h l))"

text \<open>\<^verbatim>\<open>v, ok := l[k]\<close>: the zero value and \<^verbatim>\<open>false\<close> when the key is absent.\<close>

definition map_index :: "store \<Rightarrow> Labels \<Rightarrow> string \<Rightarrow> Label \<times> bool" where
  "map_index h l k =
     (case map_of (map_range h l) k of
        Some v \<Rightarrow> (v, True)
      | None \<Rightarrow> (zero_Label, False))"

text \<open>\<^verbatim>\<open>l[k] = v\<close>: a panic on a nil map, an update of the map object otherwise.\<close>

definition map_assign :: "store \<Rightarrow> Labels \<Rightarrow> string \<Rightarrow> Label \<Rightarrow> panic + store" where
  "map_assign h l k v =
     (case l of
        NilLabels \<Rightarrow> Inl AssignmentToNilMap
      | MapRef a \<Rightarrow> Inr (h[a := DAList.update k v (h ! a)]))"

text \<open>\<^verbatim>\<open>Labels{}\<close>: a new, empty map object.\<close>

definition map_make :: "store \<Rightarrow> Labels \<times> store" where
  "map_make h = (MapRef (length h), h @ [DAList.empty])"

text \<open>The mapping a label set stands for: from each key to the label stored under it.\<close>

definition contents :: "store \<Rightarrow> Labels \<Rightarrow> (string \<rightharpoonup> Label)" where
  "contents h l = map_of (map_range h l)"

text \<open>A reference is valid in a store when it is nil or points to an allocated map.\<close>

definition valid_ref :: "store \<Rightarrow> Labels \<Rightarrow> bool" where
  "valid_ref h l = (case l of NilLabels \<Rightarrow> True | MapRef a \<Rightarrow> a < length h)"

subsection \<open>Operations on label sets\<close>

text \<open>
  \<^verbatim>\<open>func (l Labels) Equals(other Labels) bool\<close> (lines 226--240): the lengths are
  compared first; the loop returns \<^verbatim>\<open>false\<close> at the first entry of \<open>l\<close> that
  \<open>other\<close> lacks or stores with a different source, key or value.
\<close>

fun Labels_Equals_loop :: "store \<Rightarrow> Labels \<Rightarrow> (string \<times> Label) list \<Rightarrow> bool" where
  "Labels_Equals_loop h other [] = True"
| "Labels_Equals_loop h other ((k, lbl1) # rest) =
     (let (lbl2, ok) = map_index h other k in
      if ok \<and> Source lbl1 = Source lbl2 \<and> Key lbl1 = Key lbl2 \<and> Value lbl1 = Value lbl2
      then Labels_Equals_loop h other rest
      else False)"

definition Labels_Equals :: "store \<Rightarrow> Labels \<Rightarrow> Labels \<Rightarrow> bool" where
  "Labels_Equals h l other =
     (if map_len h l \<noteq> map_len h other then False
      else Labels_Equals_loop h other (map_range h l))"

text \<open>
  \<^verbatim>\<open>func (l Labels) MergeLabels(from Labels)\<close> (lines 481--485):
  \<^verbatim>\<open>for k, v := range from { l[k] = v }\<close>. The entries of \<open>from\<close> are those at the
  start of the loop: when \<open>from\<close> and \<open>l\<close> are the same map, each assignment stores
  the value the key already has and creates no entry.
\<close>

fun MergeLabels_loop :: "store \<Rightarrow> Labels \<Rightarrow> (string \<times> Label) list \<Rightarrow> panic + store" where
  "MergeLabels_loop h l [] = Inr h"
| "MergeLabels_loop h l ((k, v) # rest) =
     (case map_assign h l k v of
        Inl e \<Rightarrow> Inl e
      | Inr h' \<Rightarrow> MergeLabels_loop h' l rest)"

definition MergeLabels :: "store \<Rightarrow> Labels \<Rightarrow> Labels \<Rightarrow> panic + store" where
  "MergeLabels h l frm = MergeLabels_loop h l (map_range h frm)"

text \<open>
  \<^verbatim>\<open>func (l Labels) SortedList() []byte\<close> (lines 514--527): the keys are collected,
  sorted, and the records of \<^verbatim>\<open>l[k]\<close> appended to the result in that order.
  \<^verbatim>\<open>sort.Strings\<close> sorts in increasing order of Go's \<^verbatim>\<open><\<close> on strings; every
  correct sort returns the same list, here \<^const>\<open>sort\<close> in the byte-wise
  lexicographic order on \<^typ>\<open>string\<close>.
\<close>

fun SortedList_loop :: "store \<Rightarrow> Labels \<Rightarrow> string \<Rightarrow> string list \<Rightarrow> string" where
  "SortedList_loop h l result [] = result"
| "SortedList_loop h l result (k # keys) =
     SortedList_loop h l (result @ FormatForKVStore (fst (map_index h l k))) keys"

definition SortedList :: "store \<Rightarrow> Labels \<Rightarrow> string" where
  "SortedList h l =
     (let keys = map fst (map_range h l);
          keys = sort keys
      in SortedList_loop h l [] keys)"

text \<open>
  \<^verbatim>\<open>func (l Labels) FindReserved() Labels\<close> (lines 547--560): a new map receives the
  entries of \<open>l\<close> whose source is \<^verbatim>\<open>reserved\<close>; it is returned when it has
  entries, and \<^verbatim>\<open>nil\<close> is returned otherwise.
\<close>

fun FindReserved_loop :: "store \<Rightarrow> Labels \<Rightarrow> (string \<times> Label) list \<Rightarrow> panic + store" where
  "FindReserved_loop h lbls [] = Inr h"
| "FindReserved_loop h lbls ((k, lbl) # rest) =
     (if Source lbl = LabelSourceReserved then
        (case map_assign h lbls k lbl of
           Inl e \<Rightarrow> Inl e
         | Inr h' \<Rightarrow> FindReserved_loop h' lbls rest)
      else FindReserved_loop h lbls rest)"

definition FindReserved :: "store \<Rightarrow> Labels \<Rightarrow> panic + (Labels \<times> store)" where
  "FindReserved h l =
     (let (lbls, h1) = map_make h in
      case FindReserved_loop h1 lbls (map_range h1 l) of
        Inl e \<Rightarrow> Inl e
      | Inr h2 \<Rightarrow> if map_len h2 lbls > 0 then Inr (lbls, h2) else Inr (NilLabels, h2))"

subsection \<open>Notions of the specification\<close>

text \<open>The characters the textual and key-value-store formats use as separators.\<close>

definition reserved_chars :: "char set" where
  "reserved_chars = {CHR '':'', CHR ''='', CHR '';'', CHR ''$''}"

text \<open>Lexicographic order by byte value, written out.\<close>

fun bytes_less :: "string \<Rightarrow> string \<Rightarrow> bool" where
  "bytes_less [] [] = False"
| "bytes_less [] (y # ys) = True"
| "bytes_less (x # xs) [] = False"
| "bytes_less (x # xs) (y # ys) =
     ((of_char x :: nat) < of_char y \<or> (x = y \<and> bytes_less xs ys))"

text \<open>The record \<^verbatim>\<open>source:key=value;\<close> of a label.\<close>

definition kv_record :: "Label \<Rightarrow> string" where
  "kv_record lbl =
     Source lbl @ [CHR '':''] @ Key lbl @ [CHR ''=''] @ Value lbl @ [CHR '';'']"

text \<open>The entries a loop of \<^const>\<open>FindReserved_loop\<close> copies.\<close>

definition reserved_entries :: "(string \<times> Label) list \<Rightarrow> (string \<times> Label) list" where
  "reserved_entries es = filter (\<lambda>(k, lbl). Source lbl = LabelSourceReserved) es"

subsection \<open>Example stores\<close>

text \<open>
  \<open>sorted_store\<close>: one label set, with an empty value under \<^verbatim>\<open>b\<close>, entered in the
  order \<^verbatim>\<open>b\<close>, \<^verbatim>\<open>a\<close>.
\<close>

definition sorted_store :: store where
  "sorted_store =
     [DAList.update ''a'' \<lparr>Key = ''a'', Value = ''1'', Source = ''k8s''\<rparr>
        (DAList.update ''b'' \<lparr>Key = ''b'', Value = [], Source = ''k8s''\<rparr> DAList.empty)]"

text \<open>
  \<open>prefix_store\<close>: the sets \<open>{a}\<close> and \<open>{a, b}\<close> of the specification's prefix
  example at addresses 0 and 1, and the set \<open>{b}\<close> at address 2.
\<close>

definition prefix_store :: store where
  "prefix_store =
     [DAList.update ''a'' \<lparr>Key = ''a'', Value = ''1'', Source = ''k8s''\<rparr> DAList.empty,
      DAList.update ''a'' \<lparr>Key = ''a'', Value = ''1'', Source = ''k8s''\<rparr>
        (DAList.update ''b'' \<lparr>Key = ''b'', Value = ''2'', Source = ''k8s''\<rparr> DAList.empty),
      DAList.update ''b'' \<lparr>Key = ''b'', Value = ''2'', Source = ''k8s''\<rparr> DAList.empty]"

text \<open>
  \<open>equals_store\<close>: the same two labels entered in both orders at addresses 0 and 1,
  and one of them alone at address 2.
\<close>

definition equals_store :: store where
  "equals_store =
     [DAList.update ''a'' \<lparr>Key = ''a'', Value = ''1'', Source = ''k8s''\<rparr>
        (DAList.update ''b'' \<lparr>Key = ''b'', Value = ''2'', Source = ''k8s''\<rparr> DAList.empty),
      DAList.update ''b'' \<lparr>Key = ''b'', Value = ''2'', Source = ''k8s''\<rparr>
        (DAList.update ''a'' \<lparr>Key = ''a'', Value = ''1'', Source = ''k8s''\<rparr> DAList.empty),
      DAList.update ''b'' \<lparr>Key = ''b'', Value = ''2'', Source = ''k8s''\<rparr> DAList.empty]"

text \<open>
  \<open>merge_store\<close>: the destination (address 0) and the source (address 1) of the
  specification's merge example.
\<close>

definition merge_store :: store where
  "merge_store =
     [DAList.update ''y'' \<lparr>Key = ''y'', Value = ''3'', Source = ''k8s''\<rparr>
        (DAList.update ''x'' \<lparr>Key = ''x'', Value = ''1'', Source = ''container''\<rparr> DAList.empty),
      DAList.update ''x'' \<lparr>Key = ''x'', Value = ''2'', Source = ''k8s''\<rparr> DAList.empty]"

text \<open>\<open>reserved_store\<close>: a label set with one reserved label and one Kubernetes label.\<close>

definition reserved_store :: store where
  "reserved_store =
     [DAList.update ''app'' \<lparr>Key = ''app'', Value = ''web'', Source = ''k8s''\<rparr>
        (DAList.update ''host'' \<lparr>Key = ''host'', Value = [], Source = ''reserved''\<rparr> DAList.empty)]"

section \<open>Properties of the parser\<close>

subsection \<open>Go's string primitives\<close>

lemma IndexByte_lower: "- 1 \<le> IndexByte s c"
  by (induction s) (auto simp: Let_def)

lemma IndexByte_upper: "IndexByte s c < int (length s)"
  by (induction s) (auto simp: Let_def)

lemma IndexByte_first: "c \<notin> set pre \<Longrightarrow> IndexByte (pre @ c # post) c = int (length pre)"
  by (induction pre) (auto simp: Let_def)

lemma slice_to_first: "slice_to (pre @ c # post) (int (length pre)) = Inr pre"
  by (simp add: slice_to_def)

lemma slice_from_first: "slice_from (pre @ c # post) (int (length pre) + 1) = Inr post"
proof -
  have "nat (int (length pre) + 1) = Suc (length pre)"
    by simp
  then show ?thesis
    by (simp add: slice_from_def)
qed

lemma slice_from_one: "slice_from (c # post) 1 = Inr post"
  by (simp add: slice_from_def)

subsection \<open>No panic\<close>

lemma parseSource_total: "\<exists>src nxt. parseSource str delim = Inr (src, nxt)"
proof (cases str)
  case Nil
  then show ?thesis
    by (simp add: parseSource_def)
next
  case (Cons x xs)
  then show ?thesis
    using IndexByte_upper [of str delim]
    by (auto simp: parseSource_def byte_at_def slice_from_def slice_to_def Let_def)
qed

lemma parseLabel_total: "\<exists>lbl. parseLabel str delim = Inr lbl"
proof -
  obtain src nxt where ps: "parseSource str delim = Inr (src, nxt)"
    using parseSource_total by blast
  show ?thesis
    using IndexByte_upper [of nxt "CHR ''=''"]
    by (auto simp: parseLabel_def ps slice_from_def slice_to_def Let_def)
qed

text \<open>
  Claim C8. For every input string and delimiter, \<^const>\<open>parseSource\<close> and
  \<^const>\<open>parseLabel\<close> return a value: none of the indexing and slicing steps can
  panic. On the empty string the label returned has the empty key (and the source
  \<^verbatim>\<open>unspec\<close>), which is what the caller can test.
\<close>

theorem C8_parseLabel_total:
  "(\<exists>src nxt. parseSource str delim = Inr (src, nxt)) \<and>
   (\<exists>lbl. parseLabel str delim = Inr lbl) \<and>
   (\<exists>lbl. parseLabel [] delim = Inr lbl \<and> Key lbl = [])"
proof (intro conjI)
  show "\<exists>src nxt. parseSource str delim = Inr (src, nxt)"
    by (rule parseSource_total)
  show "\<exists>lbl. parseLabel str delim = Inr lbl"
    by (rule parseLabel_total)
  have "parseLabel [] delim = Inr \<lparr>Key = [], Value = [], Source = LabelSourceUnspec\<rparr>"
    by (simp add: parseLabel_def parseSource_def zero_Label_def)
  then show "\<exists>lbl. parseLabel [] delim = Inr lbl \<and> Key lbl = []"
    by simp
qed

subsection \<open>Source and key\<close>

lemma parseSource_delim:
  assumes "src \<noteq> []" and "CHR ''$'' \<notin> set src" and "delim \<notin> set src"
  shows "parseSource (src @ delim # rest) delim = Inr (src, rest)"
proof -
  have ib: "IndexByte (src @ delim # rest) delim = int (length src)"
    using assms(3) by (rule IndexByte_first)
  have b0: "byte_at (src @ delim # rest) 0 = Inr (hd src)"
    using assms(1) by (cases src) (auto simp: byte_at_def)
  have "hd src \<noteq> CHR ''$''"
    using assms(1,2) by (cases src) auto
  then show ?thesis
    using assms(1)
    by (simp add: parseSource_def Let_def ib b0 slice_to_first slice_from_first)
qed

lemma parseLabel_split:
  assumes ps: "parseSource str delim = Inr (src, nxt)"
    and nxt: "nxt = pre @ CHR ''='' # post"
    and pre: "CHR ''='' \<notin> set pre"
  shows "parseLabel str delim =
           Inr (if pre = [] \<and> src = LabelSourceReserved
                then \<lparr>Key = post, Value = [], Source = LabelSourceReserved\<rparr>
                else \<lparr>Key = pre, Value = post,
                      Source = (if src = [] then LabelSourceUnspec else src)\<rparr>)"
proof -
  have ib: "IndexByte (pre @ CHR ''='' # post) (CHR ''='') = int (length pre)"
    using pre by (rule IndexByte_first)
  have ne: "LabelSourceReserved \<noteq> []"
    by (simp add: LabelSourceReserved_def)
  show ?thesis
    unfolding parseLabel_def ps nxt
    by (simp add: Let_def ib ne slice_to_first slice_from_first slice_from_one zero_Label_def)
qed

text \<open>
  Claim C6. Let \<open>src\<close> and \<open>nxt\<close> be the source and the remainder that
  \<^const>\<open>parseSource\<close> returns, and let the remainder contain \<^verbatim>\<open>=\<close>, so that it is
  \<open>pre\<close>, the first \<^verbatim>\<open>=\<close>, and \<open>post\<close>. When \<open>src\<close> is \<^verbatim>\<open>reserved\<close> and \<open>pre\<close>
  is empty (the \<^verbatim>\<open>=\<close> is at position 0), the key is \<open>post\<close> and the value stays empty.
  In every other case the key is \<open>pre\<close> and the value is \<open>post\<close>.
\<close>

theorem C6_parseLabel_reserved_shorthand:
  assumes "parseSource str delim = Inr (src, nxt)"
    and "nxt = pre @ CHR ''='' # post"
    and "CHR ''='' \<notin> set pre"
  shows "\<exists>lbl. parseLabel str delim = Inr lbl \<and>
           (if src = LabelSourceReserved \<and> pre = []
            then Key lbl = post \<and> Value lbl = []
            else Key lbl = pre \<and> Value lbl = post)"
  using parseLabel_split [OF assms] by auto

theorem C6_witness:
  "parseSource ''$=value'' (CHR '':'') = Inr (''reserved'', ''=value'') \<and>
   (\<exists>lbl. parseLabel ''$=value'' (CHR '':'') = Inr lbl \<and> Key lbl = ''value'' \<and> Value lbl = [])"
proof -
  have ps: "parseSource ''$=value'' (CHR '':'') = Inr (LabelSourceReserved, ''=value'')"
    by (simp add: parseSource_def byte_at_def slice_from_def)
  have sp: "''=value'' = [] @ CHR ''='' # ''value''"
    by simp
  have nin: "CHR ''='' \<notin> set []"
    by simp
  from C6_parseLabel_reserved_shorthand [OF ps sp nin] ps show ?thesis
    by (simp add: LabelSourceReserved_def)
qed

lemma IndexByte_absent: "c \<notin> set s \<Longrightarrow> IndexByte s c = - 1"
  by (induction s) (auto simp: Let_def)

lemma parseSource_no_source:
  assumes "CHR '':'' \<notin> set str" and "\<not> HasPrefix str ''$''"
    and "\<not> HasPrefix str LabelSourceReservedKeyPrefix"
  shows "parseSource str (CHR '':'') = Inr ([], str)"
proof (cases str)
  case Nil
  then show ?thesis
    by (simp add: parseSource_def)
next
  case (Cons x xs)
  have "x \<noteq> CHR ''$''"
    using assms(2) Cons by (simp add: HasPrefix_def)
  then show ?thesis
    using assms(3) IndexByte_absent [OF assms(1)]
    by (simp add: parseSource_def Cons byte_at_def)
qed

lemma parseLabel_Source:
  assumes "parseSource str delim = Inr (src, nxt)" and "parseLabel str delim = Inr lbl"
  shows "Source lbl = (if src = [] then LabelSourceUnspec else src)"
  using assms(2) unfolding parseLabel_def assms(1)
  by (auto simp: Let_def zero_Label_def split: if_splits sum.splits)

text \<open>
  Claim C4. \<^verbatim>\<open>$host\<close> parses to the key \<^verbatim>\<open>host\<close> with the source
  \<^verbatim>\<open>reserved\<close>, and \<^verbatim>\<open>k8s:role=backend\<close> to the key \<^verbatim>\<open>role\<close>, the value
  \<^verbatim>\<open>backend\<close> and the source \<^verbatim>\<open>k8s\<close>. For every input in which
  \<^const>\<open>parseSource\<close> finds no source, \<^const>\<open>ParseLabel\<close> returns a label with
  the source \<^verbatim>\<open>unspec\<close> and \<^const>\<open>ParseSelectLabel\<close> returns the same label with
  the source \<^verbatim>\<open>any\<close>; \<^verbatim>\<open>role=backend\<close> is such an input.
\<close>

theorem C4_parse_sources:
  "ParseLabel ''$host'' = Inr \<lparr>Key = ''host'', Value = [], Source = ''reserved''\<rparr> \<and>
   ParseLabel ''k8s:role=backend'' =
     Inr \<lparr>Key = ''role'', Value = ''backend'', Source = ''k8s''\<rparr> \<and>
   (parseSource str (CHR '':'') = Inr ([], nxt) \<longrightarrow>
      (\<exists>lbl. ParseLabel str = Inr lbl \<and> Source lbl = ''unspec'' \<and>
         ParseSelectLabel str = Inr (lbl\<lparr>Source := ''any''\<rparr>))) \<and>
   parseSource ''role=backend'' (CHR '':'') = Inr ([], ''role=backend'') \<and>
   ParseLabel ''role=backend'' =
     Inr \<lparr>Key = ''role'', Value = ''backend'', Source = ''unspec''\<rparr> \<and>
   ParseSelectLabel ''role=backend'' =
     Inr \<lparr>Key = ''role'', Value = ''backend'', Source = ''any''\<rparr>"
proof (intro conjI impI)
  show "ParseLabel ''$host'' = Inr \<lparr>Key = ''host'', Value = [], Source = ''reserved''\<rparr>"
    by (simp add: ParseLabel_def parseLabel_def parseSource_def byte_at_def slice_from_def
        LabelSourceReserved_def zero_Label_def)
  show "ParseLabel ''k8s:role=backend'' =
          Inr \<lparr>Key = ''role'', Value = ''backend'', Source = ''k8s''\<rparr>"
    by (simp add: ParseLabel_def parseLabel_def parseSource_def byte_at_def slice_from_def
        slice_to_def LabelSourceReserved_def zero_Label_def)
  show "\<exists>lbl. ParseLabel str = Inr lbl \<and> Source lbl = ''unspec'' \<and>
          ParseSelectLabel str = Inr (lbl\<lparr>Source := ''any''\<rparr>)"
    if ps: "parseSource str (CHR '':'') = Inr ([], nxt)"
  proof -
    obtain lbl where pl: "parseLabel str (CHR '':'') = Inr lbl"
      using parseLabel_total by blast
    have src: "Source lbl = LabelSourceUnspec"
      using parseLabel_Source [OF ps pl] by simp
    have "parseSelectLabel str (CHR '':'') = Inr (lbl\<lparr>Source := LabelSourceAny\<rparr>)"
      by (simp add: parseSelectLabel_def pl src)
    with pl src show ?thesis
      by (simp add: ParseLabel_def ParseSelectLabel_def LabelSourceUnspec_def LabelSourceAny_def)
  qed
  show ps: "parseSource ''role=backend'' (CHR '':'') = Inr ([], ''role=backend'')"
    by (simp add: parseSource_def byte_at_def LabelSourceReservedKeyPrefix_def
        LabelSourceReserved_def HasPrefix_def)
  have unspec: "parseLabel ''role=backend'' (CHR '':'') =
          Inr \<lparr>Key = ''role'', Value = ''backend'', Source = ''unspec''\<rparr>"
    by (simp add: parseLabel_def ps slice_from_def slice_to_def LabelSourceReserved_def
        LabelSourceUnspec_def zero_Label_def)
  show "ParseLabel ''role=backend'' =
          Inr \<lparr>Key = ''role'', Value = ''backend'', Source = ''unspec''\<rparr>"
    by (simp add: ParseLabel_def unspec)
  show "ParseSelectLabel ''role=backend'' =
          Inr \<lparr>Key = ''role'', Value = ''backend'', Source = ''any''\<rparr>"
    by (simp add: ParseSelectLabel_def parseSelectLabel_def unspec LabelSourceUnspec_def
        LabelSourceAny_def)
qed

theorem C4_witness:
  "parseSource ''role'' (CHR '':'') = Inr ([], ''role'') \<and>
   ParseLabel ''role'' = Inr \<lparr>Key = ''role'', Value = [], Source = ''unspec''\<rparr> \<and>
   ParseSelectLabel ''role'' = Inr \<lparr>Key = ''role'', Value = [], Source = ''any''\<rparr>"
proof -
  have ps: "parseSource ''role'' (CHR '':'') = Inr ([], ''role'')"
    by (rule parseSource_no_source)
      (simp_all add: HasPrefix_def LabelSourceReservedKeyPrefix_def LabelSourceReserved_def)
  from C4_parse_sources [of "''role''" "''role''"] ps
  obtain lbl where pl: "ParseLabel ''role'' = Inr lbl"
    and src: "Source lbl = ''unspec''"
    and sel: "ParseSelectLabel ''role'' = Inr (lbl\<lparr>Source := ''any''\<rparr>)"
    by blast
  have "parseLabel ''role'' (CHR '':'') = Inr \<lparr>Key = ''role'', Value = [], Source = ''unspec''\<rparr>"
    by (simp add: parseLabel_def ps LabelSourceUnspec_def zero_Label_def)
  with pl have "lbl = \<lparr>Key = ''role'', Value = [], Source = ''unspec''\<rparr>"
    by (simp add: ParseLabel_def)
  with pl sel ps show ?thesis
    by simp
qed

text \<open>
  Claim C5. Let a label have a non-empty source and a non-empty key, and none of
  \<^verbatim>\<open>:\<close>, \<^verbatim>\<open>=\<close>, \<^verbatim>\<open>;\<close>, \<^verbatim>\<open>$\<close> in its source, key or value. Parsing its
  key-value-store record without the final semicolon, that is \<^verbatim>\<open>source:key=value\<close>,
  with \<^const>\<open>ParseLabel\<close> gives the label back.
\<close>

theorem C5_parse_format_roundtrip:
  assumes "Source lbl \<noteq> []" and "Key lbl \<noteq> []"
    and "set (Source lbl) \<inter> reserved_chars = {}"
    and "set (Key lbl) \<inter> reserved_chars = {}"
    and "set (Value lbl) \<inter> reserved_chars = {}"
  shows "FormatForKVStore lbl = Source lbl @ '':'' @ Key lbl @ ''='' @ Value lbl @ '';'' \<and>
         ParseLabel (Source lbl @ '':'' @ Key lbl @ ''='' @ Value lbl) = Inr lbl"
proof -
  let ?text = "Source lbl @ CHR '':'' # (Key lbl @ CHR ''='' # Value lbl)"
  have ps: "parseSource ?text (CHR '':'') = Inr (Source lbl, Key lbl @ CHR ''='' # Value lbl)"
    using assms by (intro parseSource_delim) (auto simp: reserved_chars_def)
  have "CHR ''='' \<notin> set (Key lbl)"
    using assms(4) by (auto simp: reserved_chars_def)
  from parseLabel_split [OF ps refl this] assms(1,2) show ?thesis
    by (simp add: ParseLabel_def FormatForKVStore_def)
qed

theorem C5_witness:
  "ParseLabel ''k8s:role=backend'' =
     Inr \<lparr>Key = ''role'', Value = ''backend'', Source = ''k8s''\<rparr>"
proof -
  let ?lbl = "\<lparr>Key = ''role'', Value = ''backend'', Source = ''k8s''\<rparr>"
  have h1: "Source ?lbl \<noteq> []" and h2: "Key ?lbl \<noteq> []"
    by simp_all
  have h3: "set (Source ?lbl) \<inter> reserved_chars = {}"
    by (simp add: reserved_chars_def)
  have h4: "set (Key ?lbl) \<inter> reserved_chars = {}"
    by (simp add: reserved_chars_def)
  have h5: "set (Value ?lbl) \<inter> reserved_chars = {}"
    by (simp add: reserved_chars_def)
  from C5_parse_format_roundtrip [OF h1 h2 h3 h4 h5] show ?thesis
    by simp
qed

section \<open>Properties of single labels\<close>

text \<open>
  Claim C10. \<^const>\<open>Label_Equals\<close> holds exactly when the keys and the values are equal
  and the receiver's source is \<^verbatim>\<open>any\<close> or equal to the argument's source. It is not
  symmetric: a label with source \<^verbatim>\<open>any\<close> equals the same key and value with source
  \<^verbatim>\<open>k8s\<close>, and not the other way round.
\<close>

theorem C10_Label_Equals_any_source:
  "(Label_Equals a b \<longleftrightarrow>
      Key a = Key b \<and> Value a = Value b \<and> (Source a = ''any'' \<or> Source a = Source b)) \<and>
   Label_Equals \<lparr>Key = ''role'', Value = ''backend'', Source = ''any''\<rparr>
                \<lparr>Key = ''role'', Value = ''backend'', Source = ''k8s''\<rparr> \<and>
   \<not> Label_Equals \<lparr>Key = ''role'', Value = ''backend'', Source = ''k8s''\<rparr>
                  \<lparr>Key = ''role'', Value = ''backend'', Source = ''any''\<rparr>"
  by (auto simp: Label_Equals_def IsAnySource_def LabelSourceAny_def)

section \<open>Properties of label sets\<close>

subsection \<open>Stores and contents\<close>

lemma map_range_distinct: "distinct (map fst (map_range h l))"
  by (simp add: map_range_def split: Labels.split)

lemma dom_contents: "dom (contents h l) = set (map fst (map_range h l))"
  by (simp add: contents_def dom_map_of_conv_image_fst)

lemma contents_iff: "contents h l k = Some v \<longleftrightarrow> (k, v) \<in> set (map_range h l)"
  using map_range_distinct [of h l] by (auto simp: contents_def)

lemma card_dom_contents: "card (dom (contents h l)) = length (map_range h l)"
  using distinct_card [OF map_range_distinct [of h l]] by (simp add: dom_contents)

lemma finite_dom_contents: "finite (dom (contents h l))"
  by (simp add: dom_contents)

lemma map_index_Some: "contents h l k = Some v \<Longrightarrow> map_index h l k = (v, True)"
  by (simp add: map_index_def contents_def)

lemma map_index_None: "contents h l k = None \<Longrightarrow> map_index h l k = (zero_Label, False)"
  by (simp add: map_index_def contents_def)

lemma contents_MapRef: "a < length h \<Longrightarrow> contents h (MapRef a) = DAList.lookup (h ! a)"
  by (simp add: contents_def map_range_def DAList.lookup.rep_eq)

lemma map_range_snoc: "valid_ref h l \<Longrightarrow> map_range (h @ [m]) l = map_range h l"
  by (cases l) (auto simp: valid_ref_def map_range_def nth_append)

lemma map_le_iff: "m \<subseteq>\<^sub>m m' \<longleftrightarrow> (\<forall>k v. m k = Some v \<longrightarrow> m' k = Some v)"
proof
  assume le: "m \<subseteq>\<^sub>m m'"
  show "\<forall>k v. m k = Some v \<longrightarrow> m' k = Some v"
  proof (intro allI impI)
    fix k v assume "m k = Some v"
    moreover from this have "k \<in> dom m"
      by blast
    ultimately show "m' k = Some v"
      using le by (simp add: map_le_def)
  qed
next
  assume "\<forall>k v. m k = Some v \<longrightarrow> m' k = Some v"
  then show "m \<subseteq>\<^sub>m m'"
    unfolding map_le_def by fastforce
qed

lemma map_add_self: "m ++ m = m"
  by (rule ext) (simp add: map_add_def split: option.split)

lemma lookup_empty_add: "DAList.lookup DAList.empty ++ m = m"
  by (rule ext) (simp add: map_add_def split: option.split)

lemma lookup_fold_update:
  "distinct (map fst es) \<Longrightarrow>
   DAList.lookup (fold (\<lambda>(k, v). DAList.update k v) es m) = DAList.lookup m ++ map_of es"
proof (induction es arbitrary: m)
  case Nil
  then show ?case by simp
next
  case (Cons e es)
  obtain k v where e: "e = (k, v)"
    by (cases e)
  have notin: "map_of es k = None"
    using Cons.prems by (simp add: e map_of_eq_None_iff)
  have step: "DAList.lookup (DAList.update k v m) ++ map_of es =
              DAList.lookup m ++ map_of ((k, v) # es)"
  proof (rule ext)
    fix x
    show "(DAList.lookup (DAList.update k v m) ++ map_of es) x =
          (DAList.lookup m ++ map_of ((k, v) # es)) x"
      using notin
      by (cases "k = x") (simp_all add: map_add_def DAList.lookup_update split: option.split)
  qed
  have "distinct (map fst es)"
    using Cons.prems by simp
  from Cons.IH [OF this, of "DAList.update k v m"] show ?case
    by (simp only: e step fold_Cons comp_apply prod.case)
qed

subsection \<open>The sorted list\<close>

lemma bytes_less_iff: "bytes_less xs ys \<longleftrightarrow> xs < ys"
  by (induction xs ys rule: bytes_less.induct) (auto simp: less_char_def)

lemma sorted_wrt_bytes_less: "sorted_wrt bytes_less keys \<longleftrightarrow> sorted keys \<and> distinct keys"
proof -
  have "bytes_less = (<)"
    by (intro ext) (rule bytes_less_iff)
  then show ?thesis
    by (simp add: strict_sorted_iff)
qed

lemma kv_record_eq: "kv_record lbl = FormatForKVStore lbl"
  by (simp add: kv_record_def FormatForKVStore_def)

lemma SortedList_loop_eq:
  "SortedList_loop h l acc keys =
     acc @ concat (map (\<lambda>k. FormatForKVStore (fst (map_index h l k))) keys)"
  by (induction keys arbitrary: acc) auto

lemma SortedList_eq:
  "SortedList h l =
     concat (map (\<lambda>k. FormatForKVStore (fst (map_index h l k))) (sort (map fst (map_range h l))))"
  by (simp add: SortedList_def SortedList_loop_eq)

lemma sorted_keys_unique:
  assumes "set keys = dom (contents h l)" and "sorted_wrt bytes_less keys"
  shows "keys = sort (map fst (map_range h l))"
proof (rule sorted_distinct_set_unique)
  show "sorted keys" "distinct keys"
    using assms(2) by (simp_all add: sorted_wrt_bytes_less)
  show "sorted (sort (map fst (map_range h l)))"
    by simp
  show "distinct (sort (map fst (map_range h l)))"
    by (simp add: map_range_distinct)
  show "set keys = set (sort (map fst (map_range h l)))"
    using assms(1) by (simp add: dom_contents)
qed

lemma sorted_keys_exist:
  "set (sort (map fst (map_range h l))) = dom (contents h l) \<and>
   sorted_wrt bytes_less (sort (map fst (map_range h l)))"
  by (simp add: sorted_wrt_bytes_less map_range_distinct dom_contents)

lemma records_cong:
  assumes "set keys \<subseteq> dom (contents h l)"
  shows "map (\<lambda>k. FormatForKVStore (fst (map_index h l k))) keys =
         map (\<lambda>k. kv_record (the (contents h l k))) keys"
proof (rule map_cong [OF refl])
  fix k assume "k \<in> set keys"
  then obtain v where "contents h l k = Some v"
    using assms by auto
  then show "FormatForKVStore (fst (map_index h l k)) = kv_record (the (contents h l k))"
    by (simp add: map_index_Some kv_record_eq)
qed

text \<open>
  Claim C1. The keys of a label set have a list in strictly increasing byte-wise
  lexicographic order, and for that list \<^const>\<open>SortedList\<close> is the concatenation,
  with nothing in between, of the records \<^verbatim>\<open>source:key=value;\<close> of the labels
  stored under the keys. A label with an empty value gives \<^verbatim>\<open>source:key=;\<close>.
\<close>

theorem C1_SortedList_sorted_records:
  "(\<exists>keys. set keys = dom (contents h l) \<and> sorted_wrt bytes_less keys) \<and>
   (\<forall>keys. set keys = dom (contents h l) \<and> sorted_wrt bytes_less keys \<longrightarrow>
      SortedList h l = concat (map (\<lambda>k. kv_record (the (contents h l k))) keys)) \<and>
   (Value lbl = [] \<longrightarrow> kv_record lbl = Source lbl @ '':'' @ Key lbl @ ''=;'')"
proof (intro conjI allI impI)
  show "\<exists>keys. set keys = dom (contents h l) \<and> sorted_wrt bytes_less keys"
    using sorted_keys_exist by blast
  show "SortedList h l = concat (map (\<lambda>k. kv_record (the (contents h l k))) keys)"
    if "set keys = dom (contents h l) \<and> sorted_wrt bytes_less keys" for keys
  proof -
    have keys: "sort (map fst (map_range h l)) = keys"
      using that sorted_keys_unique by blast
    have "set keys \<subseteq> dom (contents h l)"
      using that by simp
    then have recs: "map (\<lambda>k. FormatForKVStore (fst (map_index h l k))) keys =
               map (\<lambda>k. kv_record (the (contents h l k))) keys"
      by (rule records_cong)
    show ?thesis
      by (simp only: SortedList_eq keys recs)
  qed
  show "kv_record lbl = Source lbl @ '':'' @ Key lbl @ ''=;''" if "Value lbl = []"
    using that by (simp add: kv_record_def)
qed

lemma sorted_store_0:
  "map_range sorted_store (MapRef 0) =
     [(''b'', \<lparr>Key = ''b'', Value = [], Source = ''k8s''\<rparr>),
      (''a'', \<lparr>Key = ''a'', Value = ''1'', Source = ''k8s''\<rparr>)]"
  by (simp add: sorted_store_def map_range_def DAList.update.rep_eq DAList.empty.rep_eq)

theorem C1_witness:
  "SortedList sorted_store (MapRef 0) = ''k8s:a=1;k8s:b=;'' \<and>
   kv_record \<lparr>Key = ''b'', Value = [], Source = ''k8s''\<rparr> = ''k8s:b=;''"
proof -
  let ?b = "\<lparr>Key = ''b'', Value = [], Source = ''k8s''\<rparr>"
  have d: "set [''a'', ''b''] = dom (contents sorted_store (MapRef 0))"
    by (auto simp: contents_def sorted_store_0)
  have s: "sorted_wrt bytes_less [''a'', ''b'']"
    by simp
  have e: "Value ?b = []"
    by simp
  note c1 = C1_SortedList_sorted_records [of sorted_store "MapRef 0" ?b]
  from c1 d s
  have "SortedList sorted_store (MapRef 0) =
          concat (map (\<lambda>k. kv_record (the (contents sorted_store (MapRef 0) k))) [''a'', ''b''])"
    by blast
  then have "SortedList sorted_store (MapRef 0) = ''k8s:a=1;k8s:b=;''"
    by (simp add: contents_def sorted_store_0 kv_record_def)
  moreover from c1 e have "kv_record ?b = Source ?b @ '':'' @ Key ?b @ ''=;''"
    by blast
  ultimately show ?thesis
    by simp
qed

lemma sorted_keys_append:
  assumes sub: "dom (contents h A) \<subseteq> dom (contents h B)"
    and lt: "\<forall>k \<in> dom (contents h A). \<forall>k' \<in> dom (contents h B) - dom (contents h A). bytes_less k k'"
  shows "sort (map fst (map_range h B)) =
         sort (map fst (map_range h A)) @
         filter (\<lambda>k. k \<notin> dom (contents h A)) (sort (map fst (map_range h B)))"
    (is "?kb = ?ka @ ?kr")
proof (rule sorted_distinct_set_unique)
  show "sorted ?kb"
    by simp
  show "distinct ?kb"
    by (simp add: map_range_distinct)
  have ska: "set ?ka = dom (contents h A)" and skb: "set ?kb = dom (contents h B)"
    by (simp_all add: dom_contents)
  have "x \<le> y" if "x \<in> set ?ka" and "y \<in> set ?kr" for x y
  proof -
    have "x \<in> dom (contents h A)"
      using that(1) ska by simp
    moreover have "y \<in> dom (contents h B) - dom (contents h A)"
      using that(2) skb by simp
    ultimately have "bytes_less x y"
      using lt by blast
    then show ?thesis
      by (simp add: bytes_less_iff)
  qed
  then have "\<forall>x \<in> set ?ka. \<forall>y \<in> set ?kr. x \<le> y"
    by blast
  moreover have "sorted ?kr"
    by (rule sorted_wrt_filter) simp
  moreover have "sorted ?ka"
    by simp
  ultimately show "sorted (?ka @ ?kr)"
    by (simp only: sorted_append simp_thms)
  show "distinct (?ka @ ?kr)"
    using ska by (auto simp: map_range_distinct)
  show "set ?kb = set (?ka @ ?kr)"
    using sub ska skb by auto
qed

lemma map_index_agree:
  assumes "\<forall>k \<in> dom (contents h A). contents h A k = contents h B k"
    and "k \<in> dom (contents h A)"
  shows "map_index h A k = map_index h B k"
proof -
  obtain v where "contents h A k = Some v"
    using assms(2) by blast
  moreover from this have "contents h B k = Some v"
    using assms by simp
  ultimately show ?thesis
    by (simp add: map_index_Some)
qed

lemma prefix_store_0:
  "map_range prefix_store (MapRef 0) = [(''a'', \<lparr>Key = ''a'', Value = ''1'', Source = ''k8s''\<rparr>)]"
  by (simp add: prefix_store_def map_range_def DAList.update.rep_eq DAList.empty.rep_eq)

lemma prefix_store_1:
  "map_range prefix_store (MapRef (Suc 0)) =
     [(''b'', \<lparr>Key = ''b'', Value = ''2'', Source = ''k8s''\<rparr>),
      (''a'', \<lparr>Key = ''a'', Value = ''1'', Source = ''k8s''\<rparr>)]"
  by (simp add: prefix_store_def map_range_def DAList.update.rep_eq DAList.empty.rep_eq)

lemma prefix_store_2:
  "map_range prefix_store (MapRef (Suc (Suc 0))) = [(''b'', \<lparr>Key = ''b'', Value = ''2'', Source = ''k8s''\<rparr>)]"
  by (simp add: prefix_store_def map_range_def DAList.update.rep_eq DAList.empty.rep_eq)

lemma SortedList_prefix_store:
  "SortedList prefix_store (MapRef 0) = ''k8s:a=1;''"
  "SortedList prefix_store (MapRef (Suc 0)) = ''k8s:a=1;k8s:b=2;''"
  "SortedList prefix_store (MapRef (Suc (Suc 0))) = ''k8s:b=2;''"
  by (simp_all add: SortedList_def prefix_store_0 prefix_store_1 prefix_store_2 map_index_def
      FormatForKVStore_def)

text \<open>
  Claim C2, as the code has it. Let the keys of \<open>A\<close> be keys of \<open>B\<close>, let the
  two sets store the same label under every key of \<open>A\<close>, and let every key that only
  \<open>B\<close> has be greater, byte-wise, than every key of \<open>A\<close>. Then the sorted list of
  \<open>A\<close> is a prefix of the sorted list of \<open>B\<close>.
\<close>

theorem C2_SortedList_prefix:
  assumes sub: "dom (contents h A) \<subseteq> dom (contents h B)"
    and same: "\<forall>k \<in> dom (contents h A). contents h A k = contents h B k"
    and lt: "\<forall>k \<in> dom (contents h A). \<forall>k' \<in> dom (contents h B) - dom (contents h A). bytes_less k k'"
  shows "prefix (SortedList h A) (SortedList h B)"
proof -
  let ?ka = "sort (map fst (map_range h A))"
  let ?kr = "filter (\<lambda>k. k \<notin> dom (contents h A)) (sort (map fst (map_range h B)))"
  have recs: "map (\<lambda>k. FormatForKVStore (fst (map_index h B k))) ?ka =
        map (\<lambda>k. FormatForKVStore (fst (map_index h A k))) ?ka"
  proof (rule map_cong [OF refl])
    fix k assume "k \<in> set ?ka"
    then have "k \<in> dom (contents h A)"
      by (simp add: dom_contents)
    then show "FormatForKVStore (fst (map_index h B k)) = FormatForKVStore (fst (map_index h A k))"
      using map_index_agree [OF same] by simp
  qed
  have "SortedList h B =
        concat (map (\<lambda>k. FormatForKVStore (fst (map_index h B k))) (?ka @ ?kr))"
    by (subst SortedList_eq, subst sorted_keys_append [OF sub lt], rule refl)
  also have "\<dots> = concat (map (\<lambda>k. FormatForKVStore (fst (map_index h B k))) ?ka) @
        concat (map (\<lambda>k. FormatForKVStore (fst (map_index h B k))) ?kr)"
    by (simp only: map_append concat_append)
  also have "\<dots> = SortedList h A @
        concat (map (\<lambda>k. FormatForKVStore (fst (map_index h B k))) ?kr)"
    by (simp only: recs SortedList_eq)
  finally have "SortedList h B =
        SortedList h A @ concat (map (\<lambda>k. FormatForKVStore (fst (map_index h B k))) ?kr)" .
  then show ?thesis
    by (simp add: prefix_def)
qed

theorem C2_witness:
  "SortedList prefix_store (MapRef 0) = ''k8s:a=1;'' \<and>
   SortedList prefix_store (MapRef 1) = ''k8s:a=1;k8s:b=2;'' \<and>
   prefix (SortedList prefix_store (MapRef 0)) (SortedList prefix_store (MapRef 1))"
proof -
  let ?A = "contents prefix_store (MapRef 0)"
  let ?B = "contents prefix_store (MapRef (Suc 0))"
  have dA: "dom ?A = {''a''}" and dB: "dom ?B = {''a'', ''b''}"
    by (auto simp: contents_def prefix_store_0 prefix_store_1)
  have sub: "dom ?A \<subseteq> dom ?B"
    by (simp add: dA dB)
  have same: "\<forall>k \<in> dom ?A. ?A k = ?B k"
    by (simp add: dA) (simp add: contents_def prefix_store_0 prefix_store_1)
  have lt: "\<forall>k \<in> dom ?A. \<forall>k' \<in> dom ?B - dom ?A. bytes_less k k'"
    by (simp add: dA dB)
  from C2_SortedList_prefix [OF sub same lt] show ?thesis
    by (simp add: SortedList_prefix_store)
qed

text \<open>
  Without the condition on the order the claim fails: the keys of \<open>{b}\<close> are keys
  of \<open>{a, b}\<close> and the shared entry is the same, and \<^verbatim>\<open>k8s:b=2;\<close> is not a
  prefix of \<^verbatim>\<open>k8s:a=1;k8s:b=2;\<close>.
\<close>

theorem C2_counterexample:
  "dom (contents prefix_store (MapRef 2)) \<subseteq> dom (contents prefix_store (MapRef 1)) \<and>
   contents prefix_store (MapRef 2) \<subseteq>\<^sub>m contents prefix_store (MapRef 1) \<and>
   \<not> prefix (SortedList prefix_store (MapRef 2)) (SortedList prefix_store (MapRef 1))"
proof -
  have le: "contents prefix_store (MapRef (Suc (Suc 0))) \<subseteq>\<^sub>m contents prefix_store (MapRef (Suc 0))"
    by (simp add: map_le_def contents_def prefix_store_1 prefix_store_2)
  then have "dom (contents prefix_store (MapRef (Suc (Suc 0)))) \<subseteq> dom (contents prefix_store (MapRef (Suc 0)))"
    by (rule map_le_implies_dom_le)
  moreover have "\<not> prefix (SortedList prefix_store (MapRef (Suc (Suc 0)))) (SortedList prefix_store (MapRef (Suc 0)))"
    by (simp add: SortedList_prefix_store)
  ultimately show ?thesis
    using le by (simp add: numeral_2_eq_2)
qed

subsection \<open>Equality of label sets\<close>

lemma Label_eq_iff:
  "lbl1 = lbl2 \<longleftrightarrow> Source lbl1 = Source lbl2 \<and> Key lbl1 = Key lbl2 \<and> Value lbl1 = Value lbl2"
  for lbl1 lbl2 :: Label
  by (cases lbl1, cases lbl2) auto

lemma Labels_Equals_loop_iff:
  "Labels_Equals_loop h other es \<longleftrightarrow> (\<forall>(k, v) \<in> set es. contents h other k = Some v)"
proof (induction es)
  case Nil
  then show ?case by simp
next
  case (Cons e es)
  obtain k lbl1 where e: "e = (k, lbl1)"
    by (cases e)
  show ?case
  proof (cases "contents h other k")
    case None
    then show ?thesis
      by (simp add: e map_index_None)
  next
    case (Some lbl2)
    then show ?thesis
      using Cons.IH Label_eq_iff [of lbl1 lbl2] by (auto simp: e map_index_Some)
  qed
qed

lemma Labels_Equals_iff_le:
  "Labels_Equals h l other \<longleftrightarrow>
     card (dom (contents h l)) = card (dom (contents h other)) \<and>
     contents h l \<subseteq>\<^sub>m contents h other"
proof -
  have "(\<forall>(k, v) \<in> set (map_range h l). contents h other k = Some v) \<longleftrightarrow>
        (\<forall>k v. contents h l k = Some v \<longrightarrow> contents h other k = Some v)"
    by (auto simp: contents_iff [of h l])
  also have "\<dots> \<longleftrightarrow> contents h l \<subseteq>\<^sub>m contents h other"
    by (rule map_le_iff [symmetric])
  finally show ?thesis
    by (simp add: Labels_Equals_def map_len_def Labels_Equals_loop_iff card_dom_contents)
qed

lemma map_le_card_eq:
  assumes "m \<subseteq>\<^sub>m m'" and "finite (dom m')" and "card (dom m) = card (dom m')"
  shows "m = m'"
proof -
  have "dom m \<subseteq> dom m'"
    using assms(1) by (rule map_le_implies_dom_le)
  then have "dom m = dom m'"
    using assms(2,3) by (simp add: card_subset_eq)
  then show ?thesis
    using assms(1) by (simp add: map_le_antisym map_le_def)
qed

lemma Labels_Equals_iff_contents:
  "Labels_Equals h l other \<longleftrightarrow> contents h l = contents h other"
  using map_le_card_eq [OF _ finite_dom_contents, of "contents h l" h other]
  by (auto simp: Labels_Equals_iff_le)

text \<open>
  Claim C7. \<^const>\<open>Labels_Equals\<close> holds exactly when the two sets have the same
  number of entries and, for every key of the first, the second stores under that key a
  label with the same key, value and source; and that is exactly when the two sets are
  the same mapping from keys to labels.
\<close>

theorem C7_Labels_Equals_exact:
  "(Labels_Equals h l other \<longleftrightarrow>
      card (dom (contents h l)) = card (dom (contents h other)) \<and>
      (\<forall>k lbl1. contents h l k = Some lbl1 \<longrightarrow>
         (\<exists>lbl2. contents h other k = Some lbl2 \<and>
            Key lbl2 = Key lbl1 \<and> Value lbl2 = Value lbl1 \<and> Source lbl2 = Source lbl1))) \<and>
   (Labels_Equals h l other \<longleftrightarrow> contents h l = contents h other)"
proof -
  have "contents h l \<subseteq>\<^sub>m contents h other \<longleftrightarrow>
        (\<forall>k lbl1. contents h l k = Some lbl1 \<longrightarrow>
           (\<exists>lbl2. contents h other k = Some lbl2 \<and>
              Key lbl2 = Key lbl1 \<and> Value lbl2 = Value lbl1 \<and> Source lbl2 = Source lbl1))"
    unfolding map_le_iff by (metis Label_eq_iff)
  then show ?thesis
    using Labels_Equals_iff_le [of h l other] Labels_Equals_iff_contents [of h l other]
    by simp
qed

theorem C7_witness: "Labels_Equals equals_store (MapRef 0) (MapRef (Suc 0)) \<and> \<not> Labels_Equals equals_store (MapRef (Suc (Suc 0))) (MapRef (Suc 0))"
proof -
  have r0: "map_range equals_store (MapRef 0) = [(''b'', \<lparr>Key = ''b'', Value = ''2'', Source = ''k8s''\<rparr>), (''a'', \<lparr>Key = ''a'', Value = ''1'', Source = ''k8s''\<rparr>)]"
    by (simp add: equals_store_def map_range_def DAList.update.rep_eq DAList.empty.rep_eq)
  have r1: "map_range equals_store (MapRef (Suc 0)) = [(''a'', \<lparr>Key = ''a'', Value = ''1'', Source = ''k8s''\<rparr>), (''b'', \<lparr>Key = ''b'', Value = ''2'', Source = ''k8s''\<rparr>)]"
    by (simp add: equals_store_def map_range_def DAList.update.rep_eq DAList.empty.rep_eq)
  have r2: "map_range equals_store (MapRef (Suc (Suc 0))) = [(''b'', \<lparr>Key = ''b'', Value = ''2'', Source = ''k8s''\<rparr>)]"
    by (simp add: equals_store_def map_range_def DAList.update.rep_eq DAList.empty.rep_eq)
  have e: "contents equals_store (MapRef 0) = contents equals_store (MapRef (Suc 0))"
    by (auto simp: contents_def r0 r1)
  have "contents equals_store (MapRef (Suc (Suc 0))) ''a'' \<noteq> contents equals_store (MapRef (Suc 0)) ''a''"
    by (simp add: contents_def r1 r2)
  then have ne: "contents equals_store (MapRef (Suc (Suc 0))) \<noteq> contents equals_store (MapRef (Suc 0))"
    by metis
  from C7_Labels_Equals_exact [of equals_store "MapRef 0" "MapRef (Suc 0)"] C7_Labels_Equals_exact [of equals_store "MapRef (Suc (Suc 0))" "MapRef (Suc 0)"] e ne show ?thesis
    by blast
qed

subsection \<open>Merging\<close>

lemma MergeLabels_loop_eq:
  "a < length h \<Longrightarrow>
   MergeLabels_loop h (MapRef a) es =
     Inr (h[a := fold (\<lambda>(k, v). DAList.update k v) es (h ! a)])"
proof (induction es arbitrary: h)
  case Nil
  then show ?case by simp
next
  case (Cons e es)
  obtain k v where e: "e = (k, v)"
    by (cases e)
  from Cons.prems have "a < length (h[a := DAList.update k v (h ! a)])"
    by simp
  from Cons.IH [OF this] Cons.prems show ?case
    by (simp add: e map_assign_def)
qed

text \<open>
  Claim C3, as the code has it. Let the destination be a map object of the store, that
  is, not nil. \<^const>\<open>MergeLabels\<close>
  returns a store in which every key of \<open>frm\<close> maps, in the destination, to the label
  \<open>frm\<close> has for it, and every other key of the destination keeps its label. The
  store has the same addresses as before and differs from it at the address of the
  destination only: the destination is changed in place, through every reference to it.
  The source is left with the contents it had, also when it is the destination itself.
\<close>

theorem C3_MergeLabels_overwrites:
  assumes "a < length h"
  shows "\<exists>h'. MergeLabels h (MapRef a) frm = Inr h' \<and>
           length h' = length h \<and>
           (\<forall>b. b \<noteq> a \<longrightarrow> h' ! b = h ! b) \<and>
           (\<forall>k v. contents h frm k = Some v \<longrightarrow> contents h' (MapRef a) k = Some v) \<and>
           (\<forall>k. contents h frm k = None \<longrightarrow> contents h' (MapRef a) k = contents h (MapRef a) k) \<and>
           contents h' frm = contents h frm"
proof -
  let ?m = "fold (\<lambda>(k, v). DAList.update k v) (map_range h frm) (h ! a)"
  let ?h' = "h[a := ?m]"
  have run: "MergeLabels h (MapRef a) frm = Inr ?h'"
    using assms by (simp add: MergeLabels_def MergeLabels_loop_eq)
  have dest: "contents ?h' (MapRef a) = contents h (MapRef a) ++ contents h frm"
    using assms by (simp add: contents_MapRef lookup_fold_update map_range_distinct contents_def [of h frm])
  have frm: "contents ?h' frm = contents h frm"
  proof (cases "frm = MapRef a")
    case True
    then show ?thesis
      using dest by (simp add: map_add_self)
  next
    case False
    then show ?thesis
      by (cases frm) (auto simp: contents_def map_range_def)
  qed
  have "\<forall>k v. contents h frm k = Some v \<longrightarrow> contents ?h' (MapRef a) k = Some v"
    by (simp add: dest)
  moreover have "\<forall>k. contents h frm k = None \<longrightarrow> contents ?h' (MapRef a) k = contents h (MapRef a) k"
    by (simp add: dest map_add_def)
  moreover have "\<forall>b. b \<noteq> a \<longrightarrow> ?h' ! b = h ! b"
    by simp
  ultimately show ?thesis
    using run frm by simp
qed

text \<open>
  A nil destination is no map object: merging a set with entries into it is Go's panic
  for an assignment to an entry of a nil map.
\<close>

lemma MergeLabels_nil_destination:
  "MergeLabels h NilLabels frm =
     (if map_range h frm = [] then Inr h else Inl AssignmentToNilMap)"
  by (cases "map_range h frm") (auto simp: MergeLabels_def map_assign_def)

lemma merge_store_0:
  "map_range merge_store (MapRef 0) =
     [(''x'', \<lparr>Key = ''x'', Value = ''1'', Source = ''container''\<rparr>),
      (''y'', \<lparr>Key = ''y'', Value = ''3'', Source = ''k8s''\<rparr>)]"
  by (simp add: merge_store_def map_range_def DAList.update.rep_eq DAList.empty.rep_eq)

lemma merge_store_1:
  "map_range merge_store (MapRef (Suc 0)) = [(''x'', \<lparr>Key = ''x'', Value = ''2'', Source = ''k8s''\<rparr>)]"
  by (simp add: merge_store_def map_range_def DAList.update.rep_eq DAList.empty.rep_eq)

theorem C3_witness:
  "\<exists>h'. MergeLabels merge_store (MapRef 0) (MapRef 1) = Inr h' \<and>
     contents h' (MapRef 0) ''x'' = Some \<lparr>Key = ''x'', Value = ''2'', Source = ''k8s''\<rparr> \<and>
     contents h' (MapRef 0) ''y'' = Some \<lparr>Key = ''y'', Value = ''3'', Source = ''k8s''\<rparr> \<and>
     contents h' (MapRef 1) ''x'' = Some \<lparr>Key = ''x'', Value = ''2'', Source = ''k8s''\<rparr> \<and>
     length h' = 2 \<and> h' ! 1 = merge_store ! 1"
proof -
  have len: "0 < length merge_store" and len2: "length merge_store = 2"
    by (simp_all add: merge_store_def)
  have x: "contents merge_store (MapRef (Suc 0)) ''x'' = Some \<lparr>Key = ''x'', Value = ''2'', Source = ''k8s''\<rparr>"
    and y: "contents merge_store (MapRef (Suc 0)) ''y'' = None"
    and y0: "contents merge_store (MapRef 0) ''y'' = Some \<lparr>Key = ''y'', Value = ''3'', Source = ''k8s''\<rparr>"
    by (simp_all add: contents_def merge_store_0 merge_store_1)
  from C3_MergeLabels_overwrites [OF len, of "MapRef (Suc 0)"] obtain h' where
    run: "MergeLabels merge_store (MapRef 0) (MapRef (Suc 0)) = Inr h'"
    and same: "length h' = length merge_store"
    and rest: "\<forall>b. b \<noteq> 0 \<longrightarrow> h' ! b = merge_store ! b"
    and new: "\<forall>k v. contents merge_store (MapRef (Suc 0)) k = Some v \<longrightarrow>
                contents h' (MapRef 0) k = Some v"
    and old: "\<forall>k. contents merge_store (MapRef (Suc 0)) k = None \<longrightarrow>
                contents h' (MapRef 0) k = contents merge_store (MapRef 0) k"
    and src: "contents h' (MapRef (Suc 0)) = contents merge_store (MapRef (Suc 0))"
    by blast
  have "contents h' (MapRef 0) ''x'' = Some \<lparr>Key = ''x'', Value = ''2'', Source = ''k8s''\<rparr>"
    using new x by blast
  moreover have "contents h' (MapRef 0) ''y'' = Some \<lparr>Key = ''y'', Value = ''3'', Source = ''k8s''\<rparr>"
    using old y y0 by simp
  moreover have "h' ! Suc 0 = merge_store ! Suc 0"
    using rest by simp
  ultimately show ?thesis
    using run same len2 src x by simp
qed

text \<open>
  Stated for every destination, nil included, the claim fails: merging the source
  of the example, which has an entry under \<^verbatim>\<open>x\<close>, into the nil label set is
  Go's panic for an assignment to an entry of a nil map, and no store results.
\<close>

theorem C3_counterexample:
  "contents merge_store (MapRef 1) ''x'' =
     Some \<lparr>Key = ''x'', Value = ''2'', Source = ''k8s''\<rparr> \<and>
   MergeLabels merge_store NilLabels (MapRef 1) = Inl AssignmentToNilMap"
proof -
  have "contents merge_store (MapRef (Suc 0)) ''x'' =
          Some \<lparr>Key = ''x'', Value = ''2'', Source = ''k8s''\<rparr>"
    by (simp add: contents_def merge_store_1)
  moreover have "MergeLabels merge_store NilLabels (MapRef (Suc 0)) = Inl AssignmentToNilMap"
    by (simp add: MergeLabels_nil_destination merge_store_1)
  ultimately show ?thesis
    by simp
qed

subsection \<open>The reserved labels\<close>

lemma FindReserved_loop_eq:
  "a < length h \<Longrightarrow>
   FindReserved_loop h (MapRef a) es =
     Inr (h[a := fold (\<lambda>(k, v). DAList.update k v) (reserved_entries es) (h ! a)])"
proof (induction es arbitrary: h)
  case Nil
  then show ?case by (simp add: reserved_entries_def)
next
  case (Cons e es)
  obtain k lbl where e: "e = (k, lbl)"
    by (cases e)
  show ?case
  proof (cases "Source lbl = LabelSourceReserved")
    case True
    from Cons.prems have "a < length (h[a := DAList.update k lbl (h ! a)])"
      by simp
    from Cons.IH [OF this] Cons.prems True show ?thesis
      by (simp add: e map_assign_def reserved_entries_def)
  next
    case False
    with Cons.IH [OF Cons.prems] show ?thesis
      by (simp add: e reserved_entries_def)
  qed
qed

lemma map_of_reserved_entries:
  "distinct (map fst es) \<Longrightarrow>
   map_of (reserved_entries es) k =
     (case map_of es k of
        None \<Rightarrow> None
      | Some lbl \<Rightarrow> if Source lbl = LabelSourceReserved then Some lbl else None)"
proof (induction es)
  case Nil
  then show ?case by (simp add: reserved_entries_def)
next
  case (Cons e es)
  obtain k' lbl where e: "e = (k', lbl)"
    by (cases e)
  have notin: "map_of es k' = None"
    using Cons.prems by (simp add: e map_of_eq_None_iff)
  from Cons show ?case
    using notin by (auto simp: e reserved_entries_def split: option.splits)
qed

lemma distinct_reserved_entries: "distinct (map fst es) \<Longrightarrow> distinct (map fst (reserved_entries es))"
  by (simp add: reserved_entries_def distinct_map_filter)

text \<open>
  Claim C9. Let \<open>l\<close> be nil or a map object of the store. \<^const>\<open>FindReserved\<close>
  returns without a panic, leaves every map object of the store as it was, so that
  \<open>l\<close> has the contents it had, and: when some label of \<open>l\<close> has the source
  \<^verbatim>\<open>reserved\<close>, the result is a reference to a map object that the store did not have
  before, holding exactly the entries of \<open>l\<close> with that source; when none has, the
  result is nil, which is no reference to a map object, empty or not.
\<close>

theorem C9_FindReserved_result:
  assumes "valid_ref h l"
  shows "\<exists>r h'. FindReserved h l = Inr (r, h') \<and>
           (\<forall>a. a < length h \<longrightarrow> h' ! a = h ! a) \<and>
           contents h' l = contents h l \<and>
           (if \<exists>k lbl. contents h l k = Some lbl \<and> Source lbl = LabelSourceReserved
            then r = MapRef (length h) \<and>
                 (\<forall>k. contents h' r k =
                    (case contents h l k of
                       None \<Rightarrow> None
                     | Some lbl \<Rightarrow> if Source lbl = LabelSourceReserved then Some lbl else None))
            else r = NilLabels)"
proof -
  let ?n = "length h"
  let ?h1 = "h @ [DAList.empty]"
  let ?m = "fold (\<lambda>(k, v). DAList.update k v) (reserved_entries (map_range h l)) DAList.empty"
  let ?h2 = "h @ [?m]"
  let ?res = "\<lambda>k. case contents h l k of
                 None \<Rightarrow> None
               | Some lbl \<Rightarrow> if Source lbl = LabelSourceReserved then Some lbl else None"
  have loop: "FindReserved_loop ?h1 (MapRef ?n) (map_range ?h1 l) = Inr ?h2"
    using FindReserved_loop_eq [of ?n ?h1 "map_range h l"] assms
    by (simp add: map_range_snoc)
  have new: "contents ?h2 (MapRef ?n) = ?res"
  proof (rule ext)
    fix k
    have "contents ?h2 (MapRef ?n) = map_of (reserved_entries (map_range h l))"
      by (simp add: contents_MapRef lookup_fold_update distinct_reserved_entries map_range_distinct
          lookup_empty_add)
    then show "contents ?h2 (MapRef ?n) k = ?res k"
      by (simp add: map_of_reserved_entries map_range_distinct contents_def [of h l])
  qed
  have old: "contents ?h2 l = contents h l"
    using assms by (simp add: contents_def map_range_snoc)
  have keep: "\<forall>a. a < length h \<longrightarrow> ?h2 ! a = h ! a"
    by (simp add: nth_append)
  have "0 < map_len ?h2 (MapRef ?n) \<longleftrightarrow> dom (contents ?h2 (MapRef ?n)) \<noteq> {}"
    using card_dom_contents [of ?h2 "MapRef ?n"] finite_dom_contents [of ?h2 "MapRef ?n"]
    by (auto simp: map_len_def card_gt_0_iff)
  also have "\<dots> \<longleftrightarrow> (\<exists>k lbl. contents h l k = Some lbl \<and> Source lbl = LabelSourceReserved)"
    unfolding new by (auto simp: dom_def split: option.splits if_splits)
  finally have len: "0 < map_len ?h2 (MapRef ?n) \<longleftrightarrow>
      (\<exists>k lbl. contents h l k = Some lbl \<and> Source lbl = LabelSourceReserved)" .
  show ?thesis
  proof (cases "\<exists>k lbl. contents h l k = Some lbl \<and> Source lbl = LabelSourceReserved")
    case True
    then have "FindReserved h l = Inr (MapRef ?n, ?h2)"
      using loop len by (simp add: FindReserved_def map_make_def)
    then show ?thesis
      using True new old keep by (simp del: fold_simps)
  next
    case False
    then have "FindReserved h l = Inr (NilLabels, ?h2)"
      using loop len by (simp add: FindReserved_def map_make_def)
    then show ?thesis
      using False old keep by (simp del: fold_simps)
  qed
qed

lemma reserved_store_0:
  "map_range reserved_store (MapRef 0) =
     [(''host'', \<lparr>Key = ''host'', Value = [], Source = ''reserved''\<rparr>),
      (''app'', \<lparr>Key = ''app'', Value = ''web'', Source = ''k8s''\<rparr>)]"
  by (simp add: reserved_store_def map_range_def DAList.update.rep_eq DAList.empty.rep_eq)

lemma prefix_store_no_reserved:
  "\<not> (\<exists>k lbl. contents prefix_store (MapRef 0) k = Some lbl \<and> Source lbl = LabelSourceReserved)"
  by (simp add: contents_def prefix_store_0 LabelSourceReserved_def)

theorem C9_witness:
  "(\<exists>h'. FindReserved reserved_store (MapRef 0) = Inr (MapRef 1, h') \<and>
     contents h' (MapRef 1) ''host'' = Some \<lparr>Key = ''host'', Value = [], Source = ''reserved''\<rparr> \<and>
     contents h' (MapRef 1) ''app'' = None \<and>
     contents h' (MapRef 0) ''app'' = Some \<lparr>Key = ''app'', Value = ''web'', Source = ''k8s''\<rparr> \<and>
     h' ! 0 = reserved_store ! 0) \<and>
   (\<exists>h'. FindReserved prefix_store (MapRef 0) = Inr (NilLabels, h'))"
proof -
  have v: "valid_ref reserved_store (MapRef 0)"
    by (simp add: valid_ref_def reserved_store_def)
  have n: "length reserved_store = Suc 0"
    by (simp add: reserved_store_def)
  have host: "contents reserved_store (MapRef 0) ''host'' = Some \<lparr>Key = ''host'', Value = [], Source = ''reserved''\<rparr>"
    and app: "contents reserved_store (MapRef 0) ''app'' = Some \<lparr>Key = ''app'', Value = ''web'', Source = ''k8s''\<rparr>"
    by (simp_all add: contents_def reserved_store_0)
  have ex: "\<exists>k lbl. contents reserved_store (MapRef 0) k = Some lbl \<and> Source lbl = LabelSourceReserved"
  proof (intro exI conjI)
    show "contents reserved_store (MapRef 0) ''host'' =
            Some \<lparr>Key = ''host'', Value = [], Source = ''reserved''\<rparr>"
      by (rule host)
    show "Source \<lparr>Key = ''host'', Value = [], Source = ''reserved''\<rparr> = LabelSourceReserved"
      by (simp add: LabelSourceReserved_def)
  qed
  from C9_FindReserved_result [OF v] ex obtain r h' where
    run: "FindReserved reserved_store (MapRef 0) = Inr (r, h')"
    and keep: "\<forall>a. a < length reserved_store \<longrightarrow> h' ! a = reserved_store ! a"
    and old: "contents h' (MapRef 0) = contents reserved_store (MapRef 0)"
    and r: "r = MapRef (length reserved_store)"
    and new: "\<forall>k. contents h' r k =
           (case contents reserved_store (MapRef 0) k of
              None \<Rightarrow> None
            | Some lbl \<Rightarrow> if Source lbl = LabelSourceReserved then Some lbl else None)"
    by (auto simp del: One_nat_def)
  have r1: "r = MapRef (Suc 0)"
    using r n by simp
  have "contents h' (MapRef (Suc 0)) ''host'' =
          Some \<lparr>Key = ''host'', Value = [], Source = ''reserved''\<rparr>"
    using new [rule_format, of "''host''"] unfolding r1 host
    by (simp add: LabelSourceReserved_def)
  moreover have "contents h' (MapRef (Suc 0)) ''app'' = None"
    using new [rule_format, of "''app''"] unfolding r1 app
    by (simp add: LabelSourceReserved_def)
  moreover have "h' ! 0 = reserved_store ! 0"
    using keep n by simp
  ultimately have first: "\<exists>h'. FindReserved reserved_store (MapRef 0) = Inr (MapRef 1, h') \<and>
     contents h' (MapRef 1) ''host'' = Some \<lparr>Key = ''host'', Value = [], Source = ''reserved''\<rparr> \<and>
     contents h' (MapRef 1) ''app'' = None \<and>
     contents h' (MapRef 0) ''app'' = Some \<lparr>Key = ''app'', Value = ''web'', Source = ''k8s''\<rparr> \<and>
     h' ! 0 = reserved_store ! 0"
    using run r1 old app by simp
  have v2: "valid_ref prefix_store (MapRef 0)"
    by (simp add: valid_ref_def prefix_store_def)
  from C9_FindReserved_result [OF v2] prefix_store_no_reserved
  have "\<exists>h'. FindReserved prefix_store (MapRef 0) = Inr (NilLabels, h')"
    by (auto simp del: One_nat_def)
  with first show ?thesis
    by blast
qed

end
